theory Spec2Isabelle
  imports Main
begin

section \<open>Values of a spreadsheet row and the Python operations used on them\<close>

text \<open>
  The script \<^verbatim>\<open>spreadsheet2markdown.py\<close> reads a workbook into a pandas data frame and,
  on the press of a button, turns every row into one markdown document.  A cell of the
  frame is a text, a number or the missing value \<^verbatim>\<open>NaN\<close>.  Numbers are modelled as
  integers (their rendering is the decimal one); floating point cells are outside the
  model.  Texts are ASCII strings: \<^verbatim>\<open>lower\<close> and \<^verbatim>\<open>strip\<close> act on
  the ASCII letters and the ASCII white space, characters above 127 are left alone.
\<close>

datatype cell = NaN | Str string | Num int

datatype py_error = AttributeError | KeyError | IndexError | ValueError

text \<open>\<^verbatim>\<open>pd.isna(v)\<close> on a scalar.\<close>

fun isna :: "cell \<Rightarrow> bool" where
  "isna NaN = True"
| "isna (Str s) = False"
| "isna (Num n) = False"

text \<open>\<^verbatim>\<open>s.replace(old, new)\<close> for one-character \<^verbatim>\<open>old\<close> and \<^verbatim>\<open>new\<close>.\<close>

definition replace_chr :: "char \<Rightarrow> char \<Rightarrow> string \<Rightarrow> string" where
  "replace_chr old new s = map (\<lambda>c. if c = old then new else c) s"

text \<open>\<^verbatim>\<open>s.lower()\<close>.\<close>

definition lower_chr :: "char \<Rightarrow> char" where
  "lower_chr c =
     (case map_of (zip ''ABCDEFGHIJKLMNOPQRSTUVWXYZ'' ''abcdefghijklmnopqrstuvwxyz'') c of
        None \<Rightarrow> c
      | Some d \<Rightarrow> d)"

definition lower :: "string \<Rightarrow> string" where
  "lower s = map lower_chr s"

text \<open>\<^verbatim>\<open>s.strip()\<close>: white space is removed from both ends.\<close>

definition isspace :: "char \<Rightarrow> bool" where
  "isspace c \<longleftrightarrow>
     c \<in> set [CHR 0x09, CHR 0x0A, CHR 0x0B, CHR 0x0C, CHR 0x0D,
              CHR 0x1C, CHR 0x1D, CHR 0x1E, CHR 0x1F, CHR '' '']"

definition strip :: "string \<Rightarrow> string" where
  "strip s = rev (dropWhile isspace (rev (dropWhile isspace s)))"

text \<open>\<^verbatim>\<open>sep.join(xs)\<close>.\<close>

fun str_join :: "string \<Rightarrow> string list \<Rightarrow> string" where
  "str_join sep [] = []"
| "str_join sep [x] = x"
| "str_join sep (x # y # ys) = x @ sep @ str_join sep (y # ys)"

text \<open>\<^verbatim>\<open>s.split(sep)\<close> for a one-character separator; the result is never empty.\<close>

fun split_chr :: "char \<Rightarrow> string \<Rightarrow> string list" where
  "split_chr sep [] = [[]]"
| "split_chr sep (c # cs) =
     (if c = sep then [] # split_chr sep cs
      else (case split_chr sep cs of
              [] \<Rightarrow> [[c]]
            | w # ws \<Rightarrow> (c # w) # ws))"

text \<open>\<^verbatim>\<open>str(v)\<close>, which is also what an f-string inserts for \<^verbatim>\<open>{v}\<close>.\<close>

fun digits :: "nat \<Rightarrow> string" where
  "digits n =
     (if n < 10 then [''0123456789'' ! n]
      else digits (n div 10) @ [''0123456789'' ! (n mod 10)])"

declare digits.simps [simp del]

fun str :: "cell \<Rightarrow> string" where
  "str NaN = ''nan''"
| "str (Str s) = s"
| "str (Num n) = (if n < 0 then CHR ''-'' # digits (nat (- n)) else digits (nat n))"

text \<open>
  \<^verbatim>\<open>v.replace(' ', '_').lower()\<close> on a cell: only a text has the two methods, a
  number and \<^verbatim>\<open>NaN\<close> (a float) raise \<^verbatim>\<open>AttributeError\<close>.
\<close>

fun replace_lower :: "cell \<Rightarrow> py_error + string" where
  "replace_lower (Str s) = Inr (lower (replace_chr CHR '' '' CHR ''_'' s))"
| "replace_lower NaN = Inl AttributeError"
| "replace_lower (Num n) = Inl AttributeError"


section \<open>Paths (\<^verbatim>\<open>posixpath\<close>)\<close>

text \<open>
  The functions of \<^verbatim>\<open>os.path\<close> that the script calls, as the module
  \<^verbatim>\<open>posixpath\<close> of the Python library defines them: the separator is the slash.
\<close>

definition startswith :: "string \<Rightarrow> string \<Rightarrow> bool" where
  "startswith s p \<longleftrightarrow> take (length p) s = p"

definition endswith :: "string \<Rightarrow> string \<Rightarrow> bool" where
  "endswith s p \<longleftrightarrow> length p \<le> length s \<and> drop (length s - length p) s = p"

text \<open>One step of the loop of \<^verbatim>\<open>os.path.join\<close>, and the loop.\<close>

definition join_step :: "string \<Rightarrow> string \<Rightarrow> string" where
  "join_step path b =
     (if startswith b ''/'' then b
      else if path = [] \<or> endswith path ''/'' then path @ b
      else path @ ''/'' @ b)"

definition path_join :: "string \<Rightarrow> string list \<Rightarrow> string" where
  "path_join a p = foldl join_step a p"

text \<open>\<^verbatim>\<open>os.path.basename\<close>: what follows the last separator.\<close>

definition basename :: "string \<Rightarrow> string" where
  "basename p = rev (takeWhile (\<lambda>c. c \<noteq> CHR ''/'') (rev p))"

text \<open>\<^verbatim>\<open>os.path.normpath\<close>: the number of leading slashes that is kept, the loop over
  the components, and the function.\<close>

definition initial_slashes :: "string \<Rightarrow> nat" where
  "initial_slashes path =
     (if startswith path ''/'' then
        (if startswith path ''//'' \<and> \<not> startswith path ''///'' then 2 else 1)
      else 0)"

fun norm_comps :: "nat \<Rightarrow> string list \<Rightarrow> string list \<Rightarrow> string list" where
  "norm_comps ini [] new_comps = new_comps"
| "norm_comps ini (comp' # comps) new_comps =
     norm_comps ini comps
       (if comp' = [] \<or> comp' = ''.'' then new_comps
        else if comp' \<noteq> ''..'' \<or> (ini = 0 \<and> new_comps = [])
                \<or> (new_comps \<noteq> [] \<and> last new_comps = ''..'')
          then new_comps @ [comp']
        else if new_comps \<noteq> [] then butlast new_comps
        else new_comps)"

definition normpath :: "string \<Rightarrow> string" where
  "normpath path =
     (if path = [] then ''.''
      else
        let ini = initial_slashes path;
            comps = norm_comps ini (split_chr CHR ''/'' path) [];
            p = replicate ini CHR ''/'' @ str_join ''/'' comps
        in if p = [] then ''.'' else p)"

text \<open>\<^verbatim>\<open>os.path.abspath\<close>; the working directory of the process is a parameter.\<close>

definition abspath :: "string \<Rightarrow> string \<Rightarrow> string" where
  "abspath cwd path =
     normpath (if \<not> startswith path ''/'' then path_join cwd [path] else path)"

text \<open>The longest common prefix of two component lists (\<^verbatim>\<open>os.path.commonprefix\<close>).\<close>

fun commonprefix :: "string list \<Rightarrow> string list \<Rightarrow> string list" where
  "commonprefix (x # xs) (y # ys) = (if x = y then x # commonprefix xs ys else [])"
| "commonprefix xs ys = []"

text \<open>\<^verbatim>\<open>os.path.relpath(path, start)\<close>.\<close>

definition relpath :: "string \<Rightarrow> string \<Rightarrow> string \<Rightarrow> py_error + string" where
  "relpath cwd path start =
     (if path = [] then Inl ValueError
      else
        let start_list = filter (\<lambda>x. x \<noteq> []) (split_chr CHR ''/'' (abspath cwd start));
            path_list = filter (\<lambda>x. x \<noteq> []) (split_chr CHR ''/'' (abspath cwd path));
            i = length (commonprefix start_list path_list);
            rel_list = replicate (length start_list - i) ''..'' @ drop i path_list
        in (case rel_list of
              [] \<Rightarrow> Inr ''.''
            | a # p \<Rightarrow> Inr (path_join a p)))"


section \<open>The data frame and the configuration\<close>

text \<open>
  A row is read by column label.  The frame knows its labels; reading a label that is
  not one of them raises \<^verbatim>\<open>KeyError\<close>.
\<close>

type_synonym row = "string \<Rightarrow> cell"

record dataframe =
  columns :: "string list"
  iterrows :: "row list"

definition getitem :: "dataframe \<Rightarrow> row \<Rightarrow> string \<Rightarrow> py_error + cell" where
  "getitem df r col = (if col \<in> set (columns df) then Inr (r col) else Inl KeyError)"

text \<open>
  The selections of the form.  The folder selection is a label or the text
  \<^verbatim>\<open>None\<close>, which the script reads as no folder column.
\<close>

record config =
  output_dir :: string
  filename_col :: string
  folder_col :: string
  properties_cols :: "string list"
  list_properties :: "(string \<times> string list) list"
  labels_cols :: "string list"
  sections_cols :: "string list"

text \<open>An empty output directory falls back to the default one.\<close>

definition output_dir_input :: "string \<Rightarrow> string" where
  "output_dir_input text = (if text = [] then ''generated_markdown'' else text)"

text \<open>The form offers one list property: its name, trimmed and lowercased, and its
  source columns; it is configured when both are non-empty.\<close>

definition list_properties_input :: "string \<Rightarrow> string list \<Rightarrow> (string \<times> string list) list" where
  "list_properties_input text list_property_cols =
     (let list_property_name = lower (strip text)
      in if list_property_name \<noteq> [] \<and> list_property_cols \<noteq> []
         then [(list_property_name, list_property_cols)] else [])"


section \<open>One row: file name, path and document\<close>

definition filename :: "dataframe \<Rightarrow> config \<Rightarrow> row \<Rightarrow> py_error + string" where
  "filename df cfg r =
     (case getitem df r (filename_col cfg) of
        Inl e \<Rightarrow> Inl e
      | Inr v \<Rightarrow>
          (case replace_lower v of
             Inl e \<Rightarrow> Inl e
           | Inr s \<Rightarrow> Inr (s @ ''.md'')))"

definition file_path :: "dataframe \<Rightarrow> config \<Rightarrow> row \<Rightarrow> string \<Rightarrow> py_error + string" where
  "file_path df cfg r fname =
     (if folder_col cfg \<noteq> ''None'' then
        (case getitem df r (folder_col cfg) of
           Inl e \<Rightarrow> Inl e
         | Inr v \<Rightarrow>
             if \<not> isna v then
               (case replace_lower v of
                  Inl e \<Rightarrow> Inl e
                | Inr folder_name \<Rightarrow> Inr (path_join (output_dir cfg) [folder_name, fname]))
             else Inr (path_join (output_dir cfg) [fname]))
      else Inr (path_join (output_dir cfg) [fname]))"

text \<open>The loop over the property columns, appending to the document.\<close>

fun add_properties :: "dataframe \<Rightarrow> row \<Rightarrow> string list \<Rightarrow> string \<Rightarrow> string" where
  "add_properties df r [] md = md"
| "add_properties df r (col # cols) md =
     add_properties df r cols
       (if col \<in> set (columns df) \<and> \<not> isna (r col)
        then md @ lower col @ '': '' @ str (r col) @ ''\<newline>''
        else md)"

text \<open>The loops of the list properties: collecting the values of the source columns,
  writing one item line per value, and the loop over the configured list properties.\<close>

fun collect_values :: "dataframe \<Rightarrow> row \<Rightarrow> string list \<Rightarrow> string list \<Rightarrow> py_error + string list" where
  "collect_values df r [] vals = Inr vals"
| "collect_values df r (col # cols) vals =
     (case getitem df r col of
        Inl e \<Rightarrow> Inl e
      | Inr v \<Rightarrow> collect_values df r cols (if \<not> isna v then vals @ [strip (str v)] else vals))"

fun add_values :: "string list \<Rightarrow> string \<Rightarrow> string" where
  "add_values [] md = md"
| "add_values (v # vs) md = add_values vs (md @ ''  - '' @ v @ ''\<newline>'')"

fun add_list_properties ::
  "dataframe \<Rightarrow> row \<Rightarrow> (string \<times> string list) list \<Rightarrow> string \<Rightarrow> py_error + string" where
  "add_list_properties df r [] md = Inr md"
| "add_list_properties df r ((prop_name, prop_cols) # ps) md =
     (case collect_values df r prop_cols [] of
        Inl e \<Rightarrow> Inl e
      | Inr vals \<Rightarrow>
          add_list_properties df r ps
            (if vals \<noteq> [] then add_values vals (md @ prop_name @ '':\<newline>'') else md))"

text \<open>The labels: a comprehension over the label columns, then one line.\<close>

definition labels :: "dataframe \<Rightarrow> config \<Rightarrow> row \<Rightarrow> string list" where
  "labels df cfg r =
     map (\<lambda>col. str (r col))
       (filter (\<lambda>col. col \<in> set (columns df) \<and> \<not> isna (r col)) (labels_cols cfg))"

definition add_labels :: "dataframe \<Rightarrow> config \<Rightarrow> row \<Rightarrow> string \<Rightarrow> string" where
  "add_labels df cfg r md =
     (if labels df cfg r \<noteq> []
      then md @ ''labels: ['' @ str_join '', '' (labels df cfg r) @ '']\<newline>''
      else md)"

text \<open>The loop over the section columns.\<close>

fun add_sections :: "dataframe \<Rightarrow> row \<Rightarrow> string list \<Rightarrow> string \<Rightarrow> string" where
  "add_sections df r [] md = md"
| "add_sections df r (col # cols) md =
     add_sections df r cols
       (if col \<in> set (columns df) \<and> \<not> isna (r col)
        then md @ ''## '' @ col @ ''\<newline>\<newline>'' @ str (r col) @ ''\<newline>\<newline>''
        else md)"

text \<open>The document of a row, built by appending to \<^verbatim>\<open>md_content\<close>.\<close>

definition md_content :: "dataframe \<Rightarrow> config \<Rightarrow> row \<Rightarrow> py_error + string" where
  "md_content df cfg r =
     (case add_list_properties df r (list_properties cfg)
             (add_properties df r (properties_cols cfg) ''---\<newline>'') of
        Inl e \<Rightarrow> Inl e
      | Inr md \<Rightarrow>
          Inr (add_sections df r (sections_cols cfg)
                 (add_labels df cfg r md @ ''---\<newline>\<newline>'')))"


section \<open>The batch: the mapping from path to document\<close>

text \<open>
  \<^verbatim>\<open>markdown_files\<close> is a Python dictionary: it keeps the order of first insertion,
  and an assignment to a key that is already there replaces the value in place.
\<close>

type_synonym files = "(string \<times> string) list"

fun setitem :: "files \<Rightarrow> string \<Rightarrow> string \<Rightarrow> files" where
  "setitem [] k v = [(k, v)]"
| "setitem ((k', v') # kvs) k v =
     (if k' = k then (k', v) # kvs else (k', v') # setitem kvs k v)"

text \<open>The body of the loop over the rows: the state is the dictionary and the list
  \<^verbatim>\<open>file_paths\<close>.  An error in a row ends the loop.  The directories that the script
  creates on the way (\<^verbatim>\<open>os.makedirs\<close>) are an effect on the file system on which neither
  the dictionary nor the archive depends; the model leaves them out.\<close>

definition row_step ::
  "dataframe \<Rightarrow> config \<Rightarrow> row \<Rightarrow> files \<times> string list \<Rightarrow> py_error + (files \<times> string list)" where
  "row_step df cfg r st =
     (case filename df cfg r of
        Inl e \<Rightarrow> Inl e
      | Inr fname \<Rightarrow>
          (case file_path df cfg r fname of
             Inl e \<Rightarrow> Inl e
           | Inr fp \<Rightarrow>
               (case md_content df cfg r of
                  Inl e \<Rightarrow> Inl e
                | Inr md \<Rightarrow> Inr (setitem (fst st) fp md, snd st @ [fp]))))"

fun row_loop ::
  "dataframe \<Rightarrow> config \<Rightarrow> row list \<Rightarrow> files \<times> string list \<Rightarrow> py_error + (files \<times> string list)" where
  "row_loop df cfg [] st = Inr st"
| "row_loop df cfg (r # rs) st =
     (case row_step df cfg r st of
        Inl e \<Rightarrow> Inl e
      | Inr st' \<Rightarrow> row_loop df cfg rs st')"

definition markdown_files :: "dataframe \<Rightarrow> config \<Rightarrow> py_error + (files \<times> string list)" where
  "markdown_files df cfg = row_loop df cfg (iterrows df) ([], [])"


section \<open>Preview, archive and listing\<close>

text \<open>
  The archive is the list of its entries, name and text, in the order of the calls of
  \<^verbatim>\<open>writestr\<close>; the compression is lossless and not modelled.
\<close>

fun zip_entries :: "string \<Rightarrow> string \<Rightarrow> files \<Rightarrow> files \<Rightarrow> py_error + files" where
  "zip_entries cwd out [] zipf = Inr zipf"
| "zip_entries cwd out ((filepath, content) # kvs) zipf =
     (case relpath cwd filepath out of
        Inl e \<Rightarrow> Inl e
      | Inr rel_path \<Rightarrow> zip_entries cwd out kvs (zipf @ [(rel_path, content)]))"

fun file_tree_lines :: "string \<Rightarrow> string \<Rightarrow> string list \<Rightarrow> py_error + string list" where
  "file_tree_lines cwd out [] = Inr []"
| "file_tree_lines cwd out (path # paths) =
     (case relpath cwd path out of
        Inl e \<Rightarrow> Inl e
      | Inr rel \<Rightarrow>
          (case file_tree_lines cwd out paths of
             Inl e \<Rightarrow> Inl e
           | Inr ls \<Rightarrow> Inr ((''- '' @ rel) # ls)))"

record generated =
  preview_title :: string
  preview_code :: string
  archive :: files
  file_tree :: string

text \<open>What the button does, from the loop over the rows to the listing.\<close>

definition generate :: "string \<Rightarrow> dataframe \<Rightarrow> config \<Rightarrow> py_error + generated" where
  "generate cwd df cfg =
     (case markdown_files df cfg of
        Inl e \<Rightarrow> Inl e
      | Inr (fs, file_paths) \<Rightarrow>
          (case fs of
             [] \<Rightarrow> Inl IndexError
           | (first_filepath, first_content) # _ \<Rightarrow>
               (case zip_entries cwd (output_dir cfg) fs [] of
                  Inl e \<Rightarrow> Inl e
                | Inr zipf \<Rightarrow>
                    (case file_tree_lines cwd (output_dir cfg) file_paths of
                       Inl e \<Rightarrow> Inl e
                     | Inr ls \<Rightarrow>
                         Inr \<lparr>preview_title = ''Preview: '' @ basename first_filepath,
                              preview_code = first_content,
                              archive = zipf,
                              file_tree = str_join ''\<newline>'' ls\<rparr>))))"


section \<open>The specification's reading of a document\<close>










text \<open>The form offers the source columns of a list property from the labels of the
  frame, so every one of them is a label of the frame.\<close>

definition list_cols_ok :: "dataframe \<Rightarrow> config \<Rightarrow> bool" where
  "list_cols_ok df cfg \<longleftrightarrow> (\<forall>p \<in> set (list_properties cfg). set (snd p) \<subseteq> set (columns df))"



section \<open>The specification's reading of paths and batches\<close>

text \<open>A directory segment of a path: the name followed by one separator, unless the
  name is empty or ends with the separator already.\<close>

definition as_dir :: "string \<Rightarrow> string" where
  "as_dir d = (if d = [] \<or> endswith d ''/'' then d else d @ ''/'')"

text \<open>A plain component of a path: not empty, not \<^verbatim>\<open>.\<close> or \<^verbatim>\<open>..\<close>, and without
  a separator.\<close>

definition clean :: "string \<Rightarrow> bool" where
  "clean t \<longleftrightarrow> t \<noteq> [] \<and> t \<noteq> ''.'' \<and> t \<noteq> ''..'' \<and> CHR ''/'' \<notin> set t"

text \<open>The output path of a row: the file name, then the path.\<close>

definition path_of :: "dataframe \<Rightarrow> config \<Rightarrow> row \<Rightarrow> py_error + string" where
  "path_of df cfg r =
     (case filename df cfg r of
        Inl e \<Rightarrow> Inl e
      | Inr fname \<Rightarrow> file_path df cfg r fname)"

definition rows_with_path :: "dataframe \<Rightarrow> config \<Rightarrow> string \<Rightarrow> row list" where
  "rows_with_path df cfg p = filter (\<lambda>r. path_of df cfg r = Inr p) (iterrows df)"




text \<open>What the loop has built after the rows \<open>rs\<close>, from the empty dictionary.\<close>

definition built :: "dataframe \<Rightarrow> config \<Rightarrow> row list \<Rightarrow> files \<times> string list \<Rightarrow> bool" where
  "built df cfg rs st \<longleftrightarrow>
     distinct (map fst (fst st))
     \<and> set (map fst (fst st)) = set (snd st)
     \<and> map Inr (snd st) = map (path_of df cfg) rs
     \<and> (\<forall>p. map_option Inr (map_of (fst st) p) =
              (if filter (\<lambda>r. path_of df cfg r = Inr p) rs = [] then None
               else Some (md_content df cfg (last (filter (\<lambda>r. path_of df cfg r = Inr p) rs)))))"


section \<open>Examples\<close>

text \<open>The row, the frame and the selections of the specification's example.\<close>

definition example_row :: row where
  "example_row =
     (\<lambda>col. NaN)(''Title'' := Str ''My Doc'', ''Folder'' := Str ''Guides'',
                 ''Author'' := Str ''Jane'', ''Tags'' := Str ''python,ml'')"

definition example_df :: dataframe where
  "example_df =
     \<lparr>columns = [''Title'', ''Folder'', ''Author'', ''Tags''], iterrows = [example_row]\<rparr>"

definition example_cfg :: config where
  "example_cfg =
     \<lparr>output_dir = ''generated_markdown'', filename_col = ''Title'', folder_col = ''Folder'',
      properties_cols = [''Author''], list_properties = [],
      labels_cols = [''Tags''], sections_cols = []\<rparr>"





text \<open>A frame whose file name column holds numbers.\<close>

definition id_row :: row where
  "id_row = (\<lambda>col. NaN)(''ID'' := Num 42, ''Title'' := Str ''Report'')"

definition id_df :: dataframe where
  "id_df = \<lparr>columns = [''ID'', ''Title''], iterrows = [id_row]\<rparr>"

definition id_cfg :: config where
  "id_cfg =
     \<lparr>output_dir = ''out'', filename_col = ''ID'', folder_col = ''None'',
      properties_cols = [], list_properties = [], labels_cols = [], sections_cols = []\<rparr>"



text \<open>Two rows with the same title and folder, and different authors.\<close>

definition first_row :: row where
  "first_row =
     (\<lambda>col. NaN)(''Title'' := Str ''My Doc'', ''Folder'' := Str ''Guides'', ''Author'' := Str ''Jane'')"

definition second_row :: row where
  "second_row =
     (\<lambda>col. NaN)(''Title'' := Str ''my doc'', ''Folder'' := Str ''guides'', ''Author'' := Str ''Joe'')"

definition twice_df :: dataframe where
  "twice_df =
     \<lparr>columns = [''Title'', ''Folder'', ''Author'', ''Tags''],
      iterrows = [first_row, second_row]\<rparr>"

text \<open>Two rows whose paths differ and have the same relative path.\<close>

definition plain_row :: row where
  "plain_row = (\<lambda>col. NaN)(''Title'' := Str ''x'', ''Author'' := Str ''Jane'')"

definition dotted_row :: row where
  "dotted_row = (\<lambda>col. NaN)(''Title'' := Str ''./x'', ''Author'' := Str ''Joe'')"

definition dotted_df :: dataframe where
  "dotted_df =
     \<lparr>columns = [''Title'', ''Folder'', ''Author'', ''Tags''],
      iterrows = [plain_row, dotted_row]\<rparr>"

definition flat_cfg :: config where
  "flat_cfg =
     \<lparr>output_dir = ''out'', filename_col = ''Title'', folder_col = ''None'',
      properties_cols = [''Author''], list_properties = [],
      labels_cols = [], sections_cols = []\<rparr>"



definition empty_df :: dataframe where
  "empty_df = \<lparr>columns = [''Title'', ''Folder'', ''Author'', ''Tags''], iterrows = []\<rparr>"


section \<open>The loops of a document and the lines they write\<close>

text \<open>The settings of the form: the output directory is never empty, and the source
  columns of the list property are the ones selected.\<close>

lemma output_dir_input_nonempty: "output_dir_input text \<noteq> []"
  by (simp add: output_dir_input_def)

lemma list_properties_input_cols:
  "set cols \<subseteq> set (columns df) \<Longrightarrow>
   list_cols_ok df (cfg\<lparr>list_properties := list_properties_input text cols\<rparr>)"
  by (simp add: list_cols_ok_def list_properties_input_def Let_def)










section \<open>The delimiters of the frontmatter\<close>






section \<open>Properties and list properties\<close>





section \<open>File names and paths\<close>

lemma lower_chr_space: "lower_chr c = CHR '' '' \<longleftrightarrow> c = CHR '' ''"
  by (auto simp: lower_chr_def split: option.splits if_splits)

lemma lower_chr_underscore: "lower_chr CHR ''_'' = CHR ''_''"
  by (simp add: lower_chr_def)


lemma lower_replace_commute:
  "lower (replace_chr CHR '' '' CHR ''_'' s) = replace_chr CHR '' '' CHR ''_'' (lower s)"
  by (induction s) (simp_all add: lower_def replace_chr_def lower_chr_space lower_chr_underscore)

text \<open>
  C1.  For every row whose file name value is a text, the file name is that text
  lowercased, with every space replaced by an underscore, followed by \<^verbatim>\<open>.md\<close>.  A
  file name value that is a number is present as well, and there the script raises
  \<^verbatim>\<open>AttributeError\<close>: it calls the string methods on the cell as it is, where the
  list properties and the labels convert the cell with \<^verbatim>\<open>str\<close> first.
\<close>

theorem filename_of_cell:
  assumes "filename_col cfg \<in> set (columns df)"
  shows "(r (filename_col cfg) = Str s \<longrightarrow>
            filename df cfg r = Inr (replace_chr CHR '' '' CHR ''_'' (lower s) @ ''.md''))
       \<and> (r (filename_col cfg) = Num n \<longrightarrow> filename df cfg r = Inl AttributeError)"
  using assms by (simp add: filename_def getitem_def lower_replace_commute)

theorem filename_of_cell_witness:
  "example_row (filename_col example_cfg) = Str ''My Doc''
   \<and> filename example_df example_cfg example_row = Inr ''my_doc.md''
   \<and> id_row (filename_col id_cfg) = Num 42
   \<and> \<not> isna (id_row (filename_col id_cfg))
   \<and> filename id_df id_cfg id_row = Inl AttributeError"
proof -
  have c: "filename_col example_cfg \<in> set (columns example_df)"
    by (simp add: example_cfg_def example_df_def)
  have v: "example_row (filename_col example_cfg) = Str ''My Doc''"
    by (simp add: example_cfg_def example_row_def)
  have "replace_chr CHR '' '' CHR ''_'' (lower ''My Doc'') @ ''.md'' = ''my_doc.md''"
    by (simp add: replace_chr_def lower_def lower_chr_def)
  with filename_of_cell [of example_cfg example_df example_row "''My Doc''", OF c,
      THEN conjunct1, rule_format, OF v]
  have t: "filename example_df example_cfg example_row = Inr ''my_doc.md''"
    by simp
  have c': "filename_col id_cfg \<in> set (columns id_df)"
    by (simp add: id_cfg_def id_df_def)
  have v': "id_row (filename_col id_cfg) = Num 42"
    by (simp add: id_cfg_def id_row_def)
  from filename_of_cell [of id_cfg id_df id_row _ 42, OF c', THEN conjunct2, rule_format, OF v']
  have n: "filename id_df id_cfg id_row = Inl AttributeError" .
  from v t v' n show ?thesis by simp
qed

lemma startswith_sep: "startswith s ''/'' \<longleftrightarrow> (\<exists>t. s = CHR ''/'' # t)"
  by (cases s) (simp_all add: startswith_def)


lemma join_step_relative: "\<not> startswith b ''/'' \<Longrightarrow> join_step path b = as_dir path @ b"
  by (simp add: join_step_def as_dir_def)

lemma endswith_sep: "endswith s ''/'' \<longleftrightarrow> s \<noteq> [] \<and> last s = CHR ''/''"
proof (cases s rule: rev_cases)
  case Nil
  then show ?thesis by (simp add: endswith_def)
next
  case (snoc t c)
  then show ?thesis by (simp add: endswith_def)
qed









section \<open>Relative paths\<close>

text \<open>
  The path of a file under the output root, made relative to the root, is what follows
  the root: for a working directory that is absolute, whatever the root, when the
  components that follow are plain.
\<close>

lemma split_chr_nonempty: "split_chr c s \<noteq> []"
  by (induction s) (auto split: list.splits)

lemma split_chr_append: "split_chr c (a @ c # b) = split_chr c a @ split_chr c b"
proof (induction a)
  case Nil
  show ?case by simp
next
  case (Cons x a)
  obtain w ws where "split_chr c a = w # ws"
    using split_chr_nonempty [of c a] by (cases "split_chr c a") auto
  with Cons.IH show ?case by simp
qed

lemma split_chr_free: "c \<notin> set t \<Longrightarrow> split_chr c t = [t]"
  by (induction t) auto

lemma split_chr_parts: "\<forall>w \<in> set (split_chr c s). c \<notin> set w"
proof (induction s)
  case Nil
  show ?case by simp
next
  case (Cons x s)
  obtain w ws where "split_chr c s = w # ws"
    using split_chr_nonempty [of c s] by (cases "split_chr c s") auto
  with Cons.IH show ?case by auto
qed

lemma split_chr_join:
  "ts \<noteq> [] \<Longrightarrow> \<forall>t \<in> set ts. CHR ''/'' \<notin> set t \<Longrightarrow>
   split_chr CHR ''/'' (str_join ''/'' ts) = ts"
proof (induction ts)
  case Nil
  then show ?case by simp
next
  case (Cons x ts)
  from Cons.prems have x: "CHR ''/'' \<notin> set x" and rest: "\<forall>t \<in> set ts. CHR ''/'' \<notin> set t"
    by simp_all
  show ?case
  proof (cases ts)
    case Nil
    with x show ?thesis by (simp add: split_chr_free)
  next
    case (Cons y ys)
    with Cons.IH rest have "split_chr CHR ''/'' (str_join ''/'' (y # ys)) = y # ys"
      by simp
    with Cons x show ?thesis
      by (simp add: split_chr_append split_chr_free)
  qed
qed

lemma split_chr_slashes:
  "split_chr CHR ''/'' (replicate n CHR ''/'' @ s) = replicate n [] @ split_chr CHR ''/'' s"
  by (induction n) simp_all

lemma norm_comps_append:
  "norm_comps ini (xs @ ys) acc = norm_comps ini ys (norm_comps ini xs acc)"
  by (induction xs arbitrary: acc) simp_all

lemma norm_comps_clean:
  "\<forall>t \<in> set ts. clean t \<Longrightarrow> norm_comps ini ts acc = acc @ ts"
  by (induction ts arbitrary: acc) (simp_all add: clean_def)

lemma norm_comps_step:
  "\<exists>acc'. norm_comps ini (c # cs) acc = norm_comps ini cs acc'
     \<and> (acc' = acc \<or> (acc' = acc @ [c] \<and> c \<noteq> []) \<or> acc' = butlast acc)"
proof (cases "c = [] \<or> c = ''.''")
  case True
  then have "norm_comps ini (c # cs) acc = norm_comps ini cs acc"
    by (simp only: norm_comps.simps if_True)
  then show ?thesis by blast
next
  case skip: False
  show ?thesis
  proof (cases "c \<noteq> ''..'' \<or> (ini = 0 \<and> acc = []) \<or> (acc \<noteq> [] \<and> last acc = ''..'')")
    case True
    with skip have "norm_comps ini (c # cs) acc = norm_comps ini cs (acc @ [c])"
      by (simp only: norm_comps.simps if_True if_False)
    with skip show ?thesis by blast
  next
    case False
    with skip have "norm_comps ini (c # cs) acc =
        norm_comps ini cs (if acc \<noteq> [] then butlast acc else acc)"
      by (simp only: norm_comps.simps if_True if_False)
    then show ?thesis by (cases "acc = []") auto
  qed
qed

lemma norm_comps_parts:
  "\<forall>c \<in> set cs. CHR ''/'' \<notin> set c \<Longrightarrow>
   \<forall>c \<in> set acc. c \<noteq> [] \<and> CHR ''/'' \<notin> set c \<Longrightarrow>
   \<forall>c \<in> set (norm_comps ini cs acc). c \<noteq> [] \<and> CHR ''/'' \<notin> set c"
proof (induction cs arbitrary: acc)
  case Nil
  then show ?case by simp
next
  case (Cons c cs)
  from Cons.prems have rest: "\<forall>c \<in> set cs. CHR ''/'' \<notin> set c" and c: "CHR ''/'' \<notin> set c"
    by simp_all
  from norm_comps_step [of ini c cs acc] obtain acc'
    where step: "norm_comps ini (c # cs) acc = norm_comps ini cs acc'"
      and acc': "acc' = acc \<or> (acc' = acc @ [c] \<and> c \<noteq> []) \<or> acc' = butlast acc"
    by blast
  have "\<forall>d \<in> set (butlast acc). d \<noteq> [] \<and> CHR ''/'' \<notin> set d"
    using Cons.prems(2) by (blast dest: in_set_butlastD)
  with Cons.prems(2) c acc' have "\<forall>d \<in> set acc'. d \<noteq> [] \<and> CHR ''/'' \<notin> set d"
    by auto
  from Cons.IH [OF rest this] show ?case
    by (simp only: step)
qed

lemma commonprefix_append: "commonprefix xs (xs @ ys) = xs"
  by (induction xs) simp_all

lemma initial_slashes_count:
  "initial_slashes s =
     (let n = length (takeWhile (\<lambda>c. c = CHR ''/'') s)
      in if n = 0 then 0 else if n = 2 then 2 else 1)"
proof (cases s)
  case Nil
  then show ?thesis by (simp add: initial_slashes_def startswith_def)
next
  case s1: (Cons a s1)
  show ?thesis
  proof (cases s1)
    case Nil
    with s1 show ?thesis by (simp add: initial_slashes_def startswith_def)
  next
    case s2: (Cons b s2)
    show ?thesis
    proof (cases s2)
      case Nil
      with s1 s2 show ?thesis by (simp add: initial_slashes_def startswith_def)
    next
      case (Cons c s3)
      with s1 s2 show ?thesis by (simp add: initial_slashes_def startswith_def)
    qed
  qed
qed

lemma str_join_snoc: "xs \<noteq> [] \<Longrightarrow> str_join sep (xs @ [u]) = str_join sep xs @ sep @ u"
  by (induction sep xs rule: str_join.induct) simp_all

lemma str_join_last:
  "ts \<noteq> [] \<Longrightarrow> \<forall>t \<in> set ts. clean t \<Longrightarrow>
   str_join ''/'' ts \<noteq> [] \<and> last (str_join ''/'' ts) \<noteq> CHR ''/''"
proof (induction ts rule: rev_induct)
  case Nil
  then show ?case by simp
next
  case (snoc u ts)
  then have u: "u \<noteq> []" "CHR ''/'' \<notin> set u"
    by (simp_all add: clean_def)
  from u have "last u \<noteq> CHR ''/''"
    by (metis last_in_set)
  with u show ?case
    by (cases "ts = []") (simp_all add: str_join_snoc)
qed

lemma clean_relative: "clean t \<Longrightarrow> \<not> startswith t ''/''"
  by (cases t) (auto simp: clean_def startswith_def)

lemma path_join_clean:
  "clean t \<Longrightarrow> \<forall>u \<in> set ts. clean u \<Longrightarrow> path_join t ts = str_join ''/'' (t # ts)"
proof (induction ts rule: rev_induct)
  case Nil
  show ?case by (simp add: path_join_def)
next
  case (snoc u ts)
  then have j: "path_join t ts = str_join ''/'' (t # ts)" and u: "clean u"
    and all: "\<forall>u \<in> set (t # ts). clean u"
    by simp_all
  from str_join_last [OF _ all] have "str_join ''/'' (t # ts) \<noteq> []"
    and "last (str_join ''/'' (t # ts)) \<noteq> CHR ''/''"
    by simp_all
  then have step: "join_step (str_join ''/'' (t # ts)) u = str_join ''/'' (t # ts) @ ''/'' @ u"
    using clean_relative [OF u] by (simp add: join_step_def endswith_sep)
  have "path_join t (ts @ [u]) = join_step (path_join t ts) u"
    by (simp add: path_join_def)
  also have "\<dots> = str_join ''/'' (t # ts) @ ''/'' @ u"
    by (simp only: j step)
  also have "\<dots> = str_join ''/'' ((t # ts) @ [u])"
    by (rule str_join_snoc [symmetric]) simp
  finally show ?case by simp
qed


lemma str_join_relative:
  "ts \<noteq> [] \<Longrightarrow> \<forall>t \<in> set ts. clean t \<Longrightarrow>
   takeWhile (\<lambda>c. c = CHR ''/'') (str_join ''/'' ts) = []"
proof (cases ts)
  case Nil
  then show "ts \<noteq> [] \<Longrightarrow> ?thesis" by simp
next
  case (Cons t ts')
  assume "\<forall>t \<in> set ts. clean t"
  with Cons obtain x t' where t: "t = x # t'" and x: "x \<noteq> CHR ''/''"
    by (cases t) (auto simp: clean_def)
  show ?thesis
    by (cases ts') (simp_all add: Cons t x)
qed

lemma takeWhile_append_stop: "takeWhile P ys = [] \<Longrightarrow> takeWhile P (xs @ ys) = takeWhile P xs"
  by (induction xs) simp_all

lemma resplit:
  assumes "\<forall>c \<in> set M. c \<noteq> [] \<and> CHR ''/'' \<notin> set c"
  shows "filter (\<lambda>x. x \<noteq> []) (split_chr CHR ''/'' (replicate n CHR ''/'' @ str_join ''/'' M)) = M"
proof -
  have "filter (\<lambda>x. x \<noteq> []) (split_chr CHR ''/'' (str_join ''/'' M)) = M"
  proof (cases "M = []")
    case True
    then show ?thesis by simp
  next
    case False
    with assms have "split_chr CHR ''/'' (str_join ''/'' M) = M"
      by (simp add: split_chr_join)
    with assms show ?thesis by (simp add: filter_id_conv)
  qed
  then show ?thesis
    by (simp add: split_chr_slashes)
qed

lemma abspath_under_root:
  assumes cwd: "startswith cwd ''/''" and out: "out \<noteq> []"
    and ts: "ts \<noteq> []" "\<forall>t \<in> set ts. clean t"
  shows "\<exists>n M. (\<forall>c \<in> set M. c \<noteq> [] \<and> CHR ''/'' \<notin> set c)
           \<and> abspath cwd out = replicate n CHR ''/'' @ str_join ''/'' M
           \<and> abspath cwd (as_dir out @ str_join ''/'' ts) =
               replicate n CHR ''/'' @ str_join ''/'' (M @ ts)"
proof -
  define R where "R = str_join ''/'' ts"
  define W where "W = (if startswith out ''/'' then [] else as_dir cwd)"
  define S where "S = W @ out"
  define D where "D = W @ as_dir out"
  define n where "n = initial_slashes S"
  define M where "M = norm_comps n (split_chr CHR ''/'' (butlast D)) []"
  have R: "takeWhile (\<lambda>c. c = CHR ''/'') R = []"
    unfolding R_def using ts by (rule str_join_relative)
  have Rne: "R \<noteq> []"
    using str_join_last [OF ts] by (simp add: R_def)
  have splitR: "split_chr CHR ''/'' R = ts"
    unfolding R_def using ts by (simp add: split_chr_join clean_def)
  obtain x out' where x: "out = x # out'"
    using out by (cases out) auto
  have rel: "startswith (as_dir out @ R) ''/'' \<longleftrightarrow> startswith out ''/''"
    by (simp add: x as_dir_def startswith_def)
  have full_out: "(if \<not> startswith out ''/'' then path_join cwd [out] else out) = S"
    by (simp add: S_def W_def path_join_def join_step_relative)
  have full_path: "(if \<not> startswith (as_dir out @ R) ''/'' then path_join cwd [as_dir out @ R]
                    else as_dir out @ R) = D @ R"
    by (simp add: rel D_def W_def path_join_def join_step_relative)
  have S0: "startswith S ''/''"
  proof (cases "startswith out ''/''")
    case True
    then show ?thesis by (simp add: S_def W_def)
  next
    case False
    from cwd obtain q where "cwd = CHR ''/'' # q"
      by (auto simp: startswith_sep)
    with False show ?thesis
      by (simp add: S_def W_def as_dir_def startswith_def)
  qed
  then have Sne: "S \<noteq> []"
    by (auto simp: startswith_sep)
  have DS: "(D = S \<and> endswith S ''/'') \<or> (D = S @ ''/'' \<and> \<not> endswith S ''/'')"
    by (simp add: D_def S_def as_dir_def endswith_sep x)
  have n: "initial_slashes (D @ R) = n"
  proof -
    have "takeWhile (\<lambda>c. c = CHR ''/'') (D @ R) = takeWhile (\<lambda>c. c = CHR ''/'') S"
    proof (cases "D = S")
      case True
      with R show ?thesis by (simp add: takeWhile_append_stop)
    next
      case False
      with DS have D: "D = S @ ''/''" and "\<not> endswith S ''/''"
        by simp_all
      with Sne have "last S \<in> set S" and "\<not> last S = CHR ''/''"
        by (simp_all add: endswith_sep)
      then have "takeWhile (\<lambda>c. c = CHR ''/'') (S @ (''/'' @ R)) = takeWhile (\<lambda>c. c = CHR ''/'') S"
        by (rule takeWhile_append1)
      with D show ?thesis by simp
    qed
    then show ?thesis
      by (simp add: initial_slashes_count n_def)
  qed
  have compsS: "norm_comps n (split_chr CHR ''/'' S) [] = M"
  proof (cases "D = S")
    case True
    with DS have "S = butlast S @ ''/''"
      using Sne by (simp add: endswith_sep) (metis append_butlast_last_id)
    then have "split_chr CHR ''/'' S = split_chr CHR ''/'' (butlast S) @ [[]]"
      using split_chr_append [of "CHR ''/''" "butlast S" "[]"] by simp
    with True show ?thesis
      by (simp add: M_def norm_comps_append)
  next
    case False
    with DS have "butlast D = S" by simp
    then show ?thesis by (simp add: M_def)
  qed
  have compsP: "norm_comps n (split_chr CHR ''/'' (D @ R)) [] = M @ ts"
  proof -
    from DS have "D = butlast D @ ''/''"
      using Sne by (auto simp: endswith_sep) (metis append_butlast_last_id)
    then have "D @ R = butlast D @ CHR ''/'' # R"
      by (metis append.assoc append_Cons append_Nil)
    then have "split_chr CHR ''/'' (D @ R) = split_chr CHR ''/'' (butlast D) @ ts"
      by (simp only: split_chr_append splitR)
    then show ?thesis
      using ts by (simp add: norm_comps_append norm_comps_clean M_def)
  qed
  have parts: "\<forall>c \<in> set M. c \<noteq> [] \<and> CHR ''/'' \<notin> set c"
    unfolding M_def by (rule norm_comps_parts) (simp_all add: split_chr_parts)
  have npos: "0 < n"
    using S0 by (simp add: n_def initial_slashes_def)
  have "abspath cwd out = replicate n CHR ''/'' @ str_join ''/'' M"
    using Sne npos by (simp add: abspath_def full_out normpath_def Let_def compsS flip: n_def)
  moreover have "abspath cwd (as_dir out @ R) = replicate n CHR ''/'' @ str_join ''/'' (M @ ts)"
    using Rne npos by (simp add: abspath_def full_path normpath_def Let_def n compsP)
  ultimately show ?thesis
    using parts unfolding R_def by blast
qed

lemma relpath_under_root:
  assumes cwd: "startswith cwd ''/''" and out: "out \<noteq> []"
    and ts: "ts \<noteq> []" "\<forall>t \<in> set ts. clean t"
  shows "relpath cwd (as_dir out @ str_join ''/'' ts) out = Inr (str_join ''/'' ts)"
proof -
  from abspath_under_root [OF assms] obtain n M
    where parts: "\<forall>c \<in> set M. c \<noteq> [] \<and> CHR ''/'' \<notin> set c"
      and a: "abspath cwd out = replicate n CHR ''/'' @ str_join ''/'' M"
      and b: "abspath cwd (as_dir out @ str_join ''/'' ts) =
               replicate n CHR ''/'' @ str_join ''/'' (M @ ts)"
    by blast
  from parts ts(2) have parts': "\<forall>c \<in> set (M @ ts). c \<noteq> [] \<and> CHR ''/'' \<notin> set c"
    by (auto simp: clean_def)
  have start_list: "filter (\<lambda>x. x \<noteq> []) (split_chr CHR ''/'' (abspath cwd out)) = M"
    unfolding a using parts by (rule resplit)
  have path_list: "filter (\<lambda>x. x \<noteq> [])
      (split_chr CHR ''/'' (abspath cwd (as_dir out @ str_join ''/'' ts))) = M @ ts"
    unfolding b using parts' by (rule resplit)
  have "relpath cwd (as_dir out @ str_join ''/'' ts) out =
      (case ts of [] \<Rightarrow> Inr ''.'' | a # p \<Rightarrow> Inr (path_join a p))"
    using str_join_last [OF ts]
    by (simp add: relpath_def Let_def start_list path_list commonprefix_append)
  moreover obtain t ts' where t: "ts = t # ts'"
    using ts(1) by (cases ts) auto
  moreover from t ts(2) have "path_join t ts' = str_join ''/'' ts"
    by (simp add: path_join_clean)
  ultimately show ?thesis by simp
qed


section \<open>Labels, and the example of the specification\<close>

lemma example_markdown_files:
  "markdown_files example_df example_cfg =
     Inr ([(''generated_markdown/guides/my_doc.md'',
            ''---\<newline>author: Jane\<newline>labels: [python,ml]\<newline>---\<newline>\<newline>'')],
          [''generated_markdown/guides/my_doc.md''])"
  by code_simp

lemma example_generate:
  "generate ''/srv/app'' example_df example_cfg =
     Inr \<lparr>preview_title = ''Preview: my_doc.md'',
          preview_code = ''---\<newline>author: Jane\<newline>labels: [python,ml]\<newline>---\<newline>\<newline>'',
          archive = [(''guides/my_doc.md'',
                      ''---\<newline>author: Jane\<newline>labels: [python,ml]\<newline>---\<newline>\<newline>'')],
          file_tree = ''- guides/my_doc.md''\<rparr>"
  by code_simp




section \<open>The loop over the rows\<close>

lemma row_step_path_of:
  "row_step df cfg r st =
     (case path_of df cfg r of
        Inl e \<Rightarrow> Inl e
      | Inr fp \<Rightarrow>
          (case md_content df cfg r of
             Inl e \<Rightarrow> Inl e
           | Inr md \<Rightarrow> Inr (setitem (fst st) fp md, snd st @ [fp])))"
  by (simp add: row_step_def path_of_def split: sum.splits)

lemma row_loop_snoc:
  "row_loop df cfg (rs @ [r]) st =
     (case row_loop df cfg rs st of
        Inl e \<Rightarrow> Inl e
      | Inr st' \<Rightarrow> row_step df cfg r st')"
  by (induction rs arbitrary: st) (simp_all split: sum.splits)

lemma map_of_setitem: "map_of (setitem fs k v) = (map_of fs)(k \<mapsto> v)"
  by (induction fs) (auto simp: fun_eq_iff)

lemma keys_setitem: "fst ` set (setitem fs k v) = insert k (fst ` set fs)"
proof (induction fs)
  case Nil
  show ?case by simp
next
  case (Cons e fs)
  obtain k' v' where e: "e = (k', v')" by (cases e)
  show ?case
    by (cases "k' = k") (simp_all add: e Cons.IH insert_commute)
qed

lemma distinct_setitem: "distinct (map fst fs) \<Longrightarrow> distinct (map fst (setitem fs k v))"
proof (induction fs)
  case Nil
  show ?case by simp
next
  case (Cons e fs)
  obtain k' v' where e: "e = (k', v')" by (cases e)
  from Cons.prems e have k': "k' \<notin> set (map fst fs)" and d: "distinct (map fst fs)"
    by simp_all
  show ?case
  proof (cases "k' = k")
    case True
    with e k' d show ?thesis by simp
  next
    case False
    with k' have "k' \<notin> fst ` set (setitem fs k v)"
      by (simp add: keys_setitem)
    with False e Cons.IH [OF d] show ?thesis by simp
  qed
qed

lemma built_step:
  assumes b: "built df cfg rs st" and s: "row_step df cfg r st = Inr st'"
  shows "built df cfg (rs @ [r]) st'"
proof -
  from s obtain fp md where fp: "path_of df cfg r = Inr fp" and md: "md_content df cfg r = Inr md"
    and st': "st' = (setitem (fst st) fp md, snd st @ [fp])"
    by (auto simp: row_step_path_of split: sum.splits)
  from b have d: "distinct (map fst (fst st))"
    and k: "set (map fst (fst st)) = set (snd st)"
    and ps: "map Inr (snd st) = map (path_of df cfg) rs"
    and m: "\<And>p. map_option Inr (map_of (fst st) p) =
              (if filter (\<lambda>r. path_of df cfg r = Inr p) rs = [] then None
               else Some (md_content df cfg (last (filter (\<lambda>r. path_of df cfg r = Inr p) rs))))"
    by (simp_all add: built_def)
  have 1: "distinct (map fst (fst st'))"
    using d by (simp add: st' distinct_setitem)
  have 2: "set (map fst (fst st')) = set (snd st')"
    using k by (simp add: st' keys_setitem)
  have 3: "map Inr (snd st') = map (path_of df cfg) (rs @ [r])"
    using ps by (simp add: st' fp)
  have 4: "map_option Inr (map_of (fst st') p) =
              (if filter (\<lambda>r. path_of df cfg r = Inr p) (rs @ [r]) = [] then None
               else Some (md_content df cfg (last (filter (\<lambda>r. path_of df cfg r = Inr p) (rs @ [r])))))"
    for p
  proof (cases "p = fp")
    case True
    then show ?thesis by (simp add: st' map_of_setitem fp md)
  next
    case False
    then show ?thesis using m [of p] by (simp add: st' map_of_setitem fp)
  qed
  from 1 2 3 4 show ?thesis by (simp add: built_def)
qed

lemma row_loop_built:
  "row_loop df cfg rs ([], []) = Inr st \<Longrightarrow> built df cfg rs st"
proof (induction rs arbitrary: st rule: rev_induct)
  case Nil
  then show ?case by (auto simp: built_def)
next
  case (snoc r rs)
  from snoc.prems obtain st0 where l: "row_loop df cfg rs ([], []) = Inr st0"
    and s: "row_step df cfg r st0 = Inr st"
    by (auto simp: row_loop_snoc split: sum.splits)
  from snoc.IH [OF l] s show ?case by (rule built_step)
qed

lemma one_entry:
  "distinct (map fst fs) \<Longrightarrow> map_of fs p = Some c \<Longrightarrow> length (filter (\<lambda>e. fst e = p) fs) = 1"
proof (induction fs)
  case Nil
  then show ?case by simp
next
  case (Cons e fs)
  show ?case
  proof (cases "fst e = p")
    case True
    with Cons.prems have "p \<notin> fst ` set fs" by auto
    then have "filter (\<lambda>e. fst e = p) fs = []"
      by (auto simp: filter_empty_conv)
    with True show ?thesis by simp
  next
    case False
    with Cons.prems have "map_of fs p = Some c" and "distinct (map fst fs)"
      by (cases e; simp)+
    with Cons.IH False show ?thesis by simp
  qed
qed

text \<open>
  C4.  When the batch completes and one or more rows compute the path \<open>p\<close>, the mapping
  has exactly one entry for \<open>p\<close>, and its content is the document of the last row, in
  input order, that computes \<open>p\<close>: a later row silently overwrites an earlier one.
\<close>

theorem last_write_wins:
  assumes "markdown_files df cfg = Inr (fs, paths)" and "rows_with_path df cfg p \<noteq> []"
  shows "length (filter (\<lambda>e. fst e = p) fs) = 1
       \<and> map_option Inr (map_of fs p) = Some (md_content df cfg (last (rows_with_path df cfg p)))"
proof -
  from assms(1) have b: "built df cfg (iterrows df) (fs, paths)"
    by (simp add: markdown_files_def row_loop_built)
  then have d: "distinct (map fst fs)"
    by (simp add: built_def)
  from b assms(2)
  have m: "map_option Inr (map_of fs p) = Some (md_content df cfg (last (rows_with_path df cfg p)))"
    by (simp add: built_def rows_with_path_def)
  then obtain c where "map_of fs p = Some c"
    by (cases "map_of fs p") simp_all
  with d have "length (filter (\<lambda>e. fst e = p) fs) = 1"
    by (rule one_entry)
  with m show ?thesis by simp
qed

theorem last_write_wins_witness:
  "markdown_files twice_df example_cfg =
     Inr ([(''generated_markdown/guides/my_doc.md'',
            ''---\<newline>author: Joe\<newline>---\<newline>\<newline>'')],
          [''generated_markdown/guides/my_doc.md'', ''generated_markdown/guides/my_doc.md''])
   \<and> rows_with_path twice_df example_cfg ''generated_markdown/guides/my_doc.md'' =
       [first_row, second_row]
   \<and> md_content twice_df example_cfg first_row =
       Inr ''---\<newline>author: Jane\<newline>---\<newline>\<newline>''
   \<and> md_content twice_df example_cfg second_row =
       Inr ''---\<newline>author: Joe\<newline>---\<newline>\<newline>''"
proof -
  have m: "markdown_files twice_df example_cfg =
     Inr ([(''generated_markdown/guides/my_doc.md'',
            ''---\<newline>author: Joe\<newline>---\<newline>\<newline>'')],
          [''generated_markdown/guides/my_doc.md'', ''generated_markdown/guides/my_doc.md''])"
    by code_simp
  have p1: "path_of twice_df example_cfg first_row = Inr ''generated_markdown/guides/my_doc.md''"
    by code_simp
  have p2: "path_of twice_df example_cfg second_row = Inr ''generated_markdown/guides/my_doc.md''"
    by code_simp
  have it: "iterrows twice_df = [first_row, second_row]"
    by (simp add: twice_df_def)
  have rs: "rows_with_path twice_df example_cfg ''generated_markdown/guides/my_doc.md'' =
       [first_row, second_row]"
    by (simp add: rows_with_path_def it p1 p2)
  then have ne: "rows_with_path twice_df example_cfg ''generated_markdown/guides/my_doc.md'' \<noteq> []"
    by simp
  have j: "md_content twice_df example_cfg first_row =
       Inr ''---\<newline>author: Jane\<newline>---\<newline>\<newline>''"
    by code_simp
  from last_write_wins [OF m ne, THEN conjunct2] rs
  have "md_content twice_df example_cfg second_row =
       Inr ''---\<newline>author: Joe\<newline>---\<newline>\<newline>''"
    by simp
  with m rs j show ?thesis by simp
qed

section \<open>The archive\<close>

lemma join_step_nonempty: "b \<noteq> [] \<Longrightarrow> join_step path b \<noteq> []"
  by (simp add: join_step_def)

lemma filename_nonempty: "filename df cfg r = Inr fname \<Longrightarrow> fname \<noteq> []"
  by (auto simp: filename_def split: sum.splits)

lemma file_path_nonempty: "fname \<noteq> [] \<Longrightarrow> file_path df cfg r fname = Inr fp \<Longrightarrow> fp \<noteq> []"
  by (auto simp: file_path_def path_join_def join_step_nonempty split: sum.splits if_splits)

lemma path_of_nonempty: "path_of df cfg r = Inr fp \<Longrightarrow> fp \<noteq> []"
  by (auto simp: path_of_def split: sum.splits dest: filename_nonempty file_path_nonempty)

lemma built_keys_nonempty:
  assumes "built df cfg rs st"
  shows "\<forall>e \<in> set (fst st). fst e \<noteq> []" and "\<forall>p \<in> set (snd st). p \<noteq> []"
proof -
  from assms have k: "set (map fst (fst st)) = set (snd st)"
    and ps: "map Inr (snd st) = map (path_of df cfg) rs"
    by (simp_all add: built_def)
  show "\<forall>p \<in> set (snd st). p \<noteq> []"
  proof
    fix p assume "p \<in> set (snd st)"
    then have "(Inr p :: py_error + string) \<in> set (map Inr (snd st))" by simp
    then have "Inr p \<in> set (map (path_of df cfg) rs)" by (simp only: ps)
    then obtain r where "path_of df cfg r = Inr p" by auto
    then show "p \<noteq> []" by (rule path_of_nonempty)
  qed
  with k show "\<forall>e \<in> set (fst st). fst e \<noteq> []" by auto
qed

lemma relpath_total: "p \<noteq> [] \<Longrightarrow> \<exists>n. relpath cwd p out = Inr n"
  by (simp add: relpath_def Let_def split: list.splits)

lemma zip_entries_eq:
  "\<forall>e \<in> set fs. fst e \<noteq> [] \<Longrightarrow>
   \<exists>z. zip_entries cwd out fs zipf = Inr (zipf @ z)
       \<and> map (\<lambda>(n, c). (Inr n, c)) z = map (\<lambda>(p, c). (relpath cwd p out, c)) fs"
proof (induction fs arbitrary: zipf)
  case Nil
  show ?case by simp
next
  case (Cons e fs)
  obtain p c where e: "e = (p, c)" by (cases e)
  with Cons.prems have "p \<noteq> []" and rest: "\<forall>e \<in> set fs. fst e \<noteq> []"
    by simp_all
  then obtain n where n: "relpath cwd p out = Inr n"
    using relpath_total by blast
  from Cons.IH [OF rest, of "zipf @ [(n, c)]"] obtain z
    where z: "zip_entries cwd out fs (zipf @ [(n, c)]) = Inr (zipf @ [(n, c)] @ z)"
      and m: "map (\<lambda>(n, c). (Inr n, c)) z = map (\<lambda>(p, c). (relpath cwd p out, c)) fs"
    by auto
  from z m n e show ?case by simp
qed

lemma file_tree_lines_total:
  "\<forall>p \<in> set paths. p \<noteq> [] \<Longrightarrow> \<exists>ls. file_tree_lines cwd out paths = Inr ls"
proof (induction paths)
  case Nil
  show ?case by simp
next
  case (Cons p paths)
  then obtain n ls where "relpath cwd p out = Inr n" and "file_tree_lines cwd out paths = Inr ls"
    using relpath_total [of p cwd out] by auto
  then show ?case by simp
qed



text \<open>
  C3 (amended).  When the batch completes, the archive has one entry for every path key of
  the mapping, in the order of the mapping: the name of the entry is the key made relative
  to the output root, and its content is the text the mapping holds for the key.  In an
  absolute working directory, the name for a key that is the output root followed by
  plain components is these components.  The keys are distinct; when no two of them have
  the same relative path, the names of the entries are distinct too, so that every key is
  found exactly once in the archive.  For a mapping that is not empty this archive is the
  one the button produces.
\<close>

theorem archive_round_trip:
  assumes "markdown_files df cfg = Inr (fs, paths)"
  shows "\<exists>zipf. zip_entries cwd (output_dir cfg) fs [] = Inr zipf
      \<and> distinct (map fst fs)
      \<and> map (\<lambda>(n, c). (Inr n, c)) zipf = map (\<lambda>(p, c). (relpath cwd p (output_dir cfg), c)) fs
      \<and> (startswith cwd ''/'' \<and> output_dir cfg \<noteq> [] \<longrightarrow>
           (\<forall>ts c. ts \<noteq> [] \<and> (\<forall>t \<in> set ts. clean t)
                    \<and> (as_dir (output_dir cfg) @ str_join ''/'' ts, c) \<in> set fs \<longrightarrow>
                  (str_join ''/'' ts, c) \<in> set zipf))
      \<and> (inj_on (\<lambda>p. relpath cwd p (output_dir cfg)) (fst ` set fs) \<longrightarrow> distinct (map fst zipf))
      \<and> (fs \<noteq> [] \<longrightarrow> (\<exists>g. generate cwd df cfg = Inr g \<and> archive g = zipf))"
proof -
  from assms have b: "built df cfg (iterrows df) (fs, paths)"
    by (simp add: markdown_files_def row_loop_built)
  then have d: "distinct (map fst fs)"
    by (simp add: built_def)
  from built_keys_nonempty [OF b] have ne: "\<forall>e \<in> set fs. fst e \<noteq> []"
    and ne': "\<forall>p \<in> set paths. p \<noteq> []"
    by simp_all
  from zip_entries_eq [OF ne, of cwd "output_dir cfg" "[]"] obtain zipf
    where z: "zip_entries cwd (output_dir cfg) fs [] = Inr zipf"
      and m: "map (\<lambda>(n, c). (Inr n, c)) zipf = map (\<lambda>(p, c). (relpath cwd p (output_dir cfg), c)) fs"
    by auto
  have names: "map Inr (map fst zipf) = map (\<lambda>p. relpath cwd p (output_dir cfg)) (map fst fs)"
  proof -
    have "map Inr (map fst zipf) = map fst (map (\<lambda>(n, c). (Inr n, c)) zipf)"
      by (simp add: case_prod_unfold comp_def)
    also have "\<dots> = map fst (map (\<lambda>(p, c). (relpath cwd p (output_dir cfg), c)) fs)"
      by (simp only: m)
    also have "\<dots> = map (\<lambda>p. relpath cwd p (output_dir cfg)) (map fst fs)"
      by (simp add: case_prod_unfold comp_def)
    finally show ?thesis .
  qed
  have u: "distinct (map fst zipf)"
    if "inj_on (\<lambda>p. relpath cwd p (output_dir cfg)) (fst ` set fs)"
  proof -
    have "distinct (map (\<lambda>p. relpath cwd p (output_dir cfg)) (map fst fs))"
      by (subst distinct_map) (simp add: d that)
    with names have "distinct (map Inr (map fst zipf) :: (py_error + string) list)"
      by simp
    then show ?thesis by (simp only: distinct_map)
  qed
  have g: "\<exists>g. generate cwd df cfg = Inr g \<and> archive g = zipf" if "fs \<noteq> []"
  proof -
    from that obtain e fs' where "fs = e # fs'" by (cases fs) auto
    moreover from file_tree_lines_total [OF ne', of cwd "output_dir cfg"] obtain ls
      where "file_tree_lines cwd (output_dir cfg) paths = Inr ls" ..
    ultimately show ?thesis
      using assms z by (cases e) (simp add: generate_def)
  qed
  have k: "(str_join ''/'' ts, c) \<in> set zipf"
    if "startswith cwd ''/''" and "output_dir cfg \<noteq> []" and "ts \<noteq> []"
      and "\<forall>t \<in> set ts. clean t"
      and key: "(as_dir (output_dir cfg) @ str_join ''/'' ts, c) \<in> set fs" for ts c
  proof -
    from that(1-4)
    have r: "relpath cwd (as_dir (output_dir cfg) @ str_join ''/'' ts) (output_dir cfg) =
        Inr (str_join ''/'' ts)"
      by (rule relpath_under_root)
    from key have "(relpath cwd (as_dir (output_dir cfg) @ str_join ''/'' ts) (output_dir cfg), c)
        \<in> set (map (\<lambda>(p, c). (relpath cwd p (output_dir cfg), c)) fs)"
      by force
    then have "(Inr (str_join ''/'' ts), c) \<in> set (map (\<lambda>(n, c). (Inr n :: py_error + string, c)) zipf)"
      by (simp only: m r)
    then show ?thesis by auto
  qed
  from z d m u g k show ?thesis by blast
qed

theorem archive_round_trip_witness:
  "markdown_files example_df example_cfg =
     Inr ([(''generated_markdown/guides/my_doc.md'',
            ''---\<newline>author: Jane\<newline>labels: [python,ml]\<newline>---\<newline>\<newline>'')],
          [''generated_markdown/guides/my_doc.md''])
   \<and> relpath ''/srv/app'' ''generated_markdown/guides/my_doc.md'' (output_dir example_cfg) =
       Inr ''guides/my_doc.md''
   \<and> zip_entries ''/srv/app'' (output_dir example_cfg)
         [(''generated_markdown/guides/my_doc.md'',
           ''---\<newline>author: Jane\<newline>labels: [python,ml]\<newline>---\<newline>\<newline>'')] [] =
       Inr [(''guides/my_doc.md'',
             ''---\<newline>author: Jane\<newline>labels: [python,ml]\<newline>---\<newline>\<newline>'')]"
proof -
  have r: "relpath ''/srv/app'' ''generated_markdown/guides/my_doc.md'' (output_dir example_cfg) =
       Inr ''guides/my_doc.md''"
    by code_simp
  from archive_round_trip [OF example_markdown_files, of "''/srv/app''"] obtain zipf
    where z: "zip_entries ''/srv/app'' (output_dir example_cfg)
         [(''generated_markdown/guides/my_doc.md'',
           ''---\<newline>author: Jane\<newline>labels: [python,ml]\<newline>---\<newline>\<newline>'')] [] = Inr zipf"
      and m: "map (\<lambda>(n, c). (Inr n, c)) zipf =
         map (\<lambda>(p, c). (relpath ''/srv/app'' p (output_dir example_cfg), c))
           [(''generated_markdown/guides/my_doc.md'',
             ''---\<newline>author: Jane\<newline>labels: [python,ml]\<newline>---\<newline>\<newline>'')]"
    by blast
  from m r have "zipf = [(''guides/my_doc.md'',
             ''---\<newline>author: Jane\<newline>labels: [python,ml]\<newline>---\<newline>\<newline>'')]"
    by (auto simp: map_eq_Cons_conv)
  with z r example_markdown_files show ?thesis by simp
qed

text \<open>Two keys with one relative path: the titles \<^verbatim>\<open>x\<close> and \<^verbatim>\<open>./x\<close> give two
  entries of the mapping, and the archive holds the name \<^verbatim>\<open>x.md\<close> twice.\<close>

theorem archive_names_counterexample:
  "markdown_files dotted_df flat_cfg =
     Inr ([(''out/x.md'', ''---\<newline>author: Jane\<newline>---\<newline>\<newline>''),
           (''out/./x.md'', ''---\<newline>author: Joe\<newline>---\<newline>\<newline>'')],
          [''out/x.md'', ''out/./x.md''])
   \<and> zip_entries ''/srv/app'' (output_dir flat_cfg)
         [(''out/x.md'', ''---\<newline>author: Jane\<newline>---\<newline>\<newline>''),
          (''out/./x.md'', ''---\<newline>author: Joe\<newline>---\<newline>\<newline>'')] [] =
       Inr [(''x.md'', ''---\<newline>author: Jane\<newline>---\<newline>\<newline>''),
            (''x.md'', ''---\<newline>author: Joe\<newline>---\<newline>\<newline>'')]"
  by code_simp


section \<open>Fatal inputs\<close>








text \<open>
  C10.  For a dataset with no row, the loop builds the empty mapping, and taking the first
  generated document for the preview raises \<^verbatim>\<open>IndexError\<close>: the generation does not
  complete.
\<close>

theorem empty_dataset_raises:
  assumes "iterrows df = []"
  shows "markdown_files df cfg = Inr ([], []) \<and> generate cwd df cfg = Inl IndexError"
  using assms by (simp add: markdown_files_def generate_def)

theorem empty_dataset_raises_witness:
  "iterrows empty_df = []
   \<and> markdown_files empty_df example_cfg = Inr ([], [])
   \<and> generate ''/srv/app'' empty_df example_cfg = Inl IndexError"
proof -
  have e: "iterrows empty_df = []"
    by (simp add: empty_df_def)
  from empty_dataset_raises [OF e, of example_cfg "''/srv/app''"] e show ?thesis
    by simp
qed

end
